theory Spec2Isabelle
  imports Complex_Main "HOL-Library.Sublist"
begin

section \<open>The log pattern of NekMonitor.parse_log\<close>

text \<open>
  A line of the log file is a Python \<open>str\<close>; it is modelled as a \<open>string\<close>, so the
  characters of the model are the code points 0 to 255. The pattern of \<open>parse_log\<close> uses
  three character classes: \<open>\s\<close>, \<open>\d\<close> and the bracket class \<open>[0-9E\+\-\.]\<close>.
  On code points up to 255, \<open>\s\<close> of a \<open>str\<close> pattern is the ASCII white space, the four
  separators 0x1C to 0x1F, NEL (0x85) and the no-break space (0xA0); \<open>\d\<close> is the ten
  ASCII digits.
\<close>

datatype cclass = Space | Digit | Number

fun in_class :: "cclass \<Rightarrow> char \<Rightarrow> bool" where
  "in_class Space c = (c \<in> set [CHR 0x09, CHR 0x0A, CHR 0x0B, CHR 0x0C, CHR 0x0D,
                                 CHR 0x1C, CHR 0x1D, CHR 0x1E, CHR 0x1F, CHR 0x20,
                                 CHR 0x85, CHR 0xA0])"
| "in_class Digit c = (c \<in> set ''0123456789'')"
| "in_class Number c = (c \<in> set ''0123456789E+-.'')"

text \<open>
  The pattern is a sequence of literals, greedy repetitions of one character class
  (\<open>c*\<close> and \<open>c+\<close>) and capturing groups of the form \<open>(c+)\<close>.
\<close>

datatype token = Literal string | ZeroOrMore cclass | OneOrMore cclass | Group cclass

definition pattern :: "token list" where
  "pattern =
     [Literal ''Step'', OneOrMore Space, Group Digit, Literal '','', ZeroOrMore Space,
      Literal ''t='', ZeroOrMore Space, Group Number, Literal '','', ZeroOrMore Space,
      Literal ''DT='', ZeroOrMore Space, Group Number, Literal '','', ZeroOrMore Space,
      Literal ''C='', ZeroOrMore Space, Group Number, ZeroOrMore Space, Group Number,
      ZeroOrMore Space, Group Number]"

text \<open>
  Python's \<open>re\<close> is a backtracking matcher: a greedy repetition first takes the longest
  run of its class and gives characters back one at a time while the rest of the pattern
  fails. \<open>first_some f ks\<close> is that loop: the first candidate length that succeeds.
\<close>

fun first_some :: "('a \<Rightarrow> 'b option) \<Rightarrow> 'a list \<Rightarrow> 'b option" where
  "first_some f [] = None"
| "first_some f (k # ks) = (case f k of Some y \<Rightarrow> Some y | None \<Rightarrow> first_some f ks)"

definition run :: "cclass \<Rightarrow> string \<Rightarrow> nat" where
  "run c s = length (takeWhile (in_class c) s)"

text \<open>\<open>lengths lo n\<close> lists the candidate lengths \<open>n, n - 1, ..., lo\<close>, longest first.\<close>

fun lengths :: "nat \<Rightarrow> nat \<Rightarrow> nat list" where
  "lengths lo 0 = (if lo = 0 then [0] else [])"
| "lengths lo (Suc n) = (if lo \<le> Suc n then Suc n # lengths lo n else [])"

text \<open>
  \<open>match_here ts s\<close> matches the tokens at the start of \<open>s\<close> and returns the captured
  groups, in the order of the groups in the pattern.
\<close>

primrec match_here :: "token list \<Rightarrow> string \<Rightarrow> string list option" where
  "match_here [] s = Some []"
| "match_here (t # ts) s =
     (case t of
        Literal w \<Rightarrow>
          if take (length w) s = w then match_here ts (drop (length w) s) else None
      | ZeroOrMore c \<Rightarrow>
          first_some (\<lambda>k. match_here ts (drop k s)) (lengths 0 (run c s))
      | OneOrMore c \<Rightarrow>
          first_some (\<lambda>k. match_here ts (drop k s)) (lengths 1 (run c s))
      | Group c \<Rightarrow>
          first_some (\<lambda>k. map_option ((#) (take k s)) (match_here ts (drop k s)))
            (lengths 1 (run c s)))"

text \<open>\<open>pattern.search(line)\<close>: the match at the leftmost position that has one.\<close>

fun search :: "token list \<Rightarrow> string \<Rightarrow> string list option" where
  "search p [] = match_here p []"
| "search p (c # s) =
     (case match_here p (c # s) of Some g \<Rightarrow> Some g | None \<Rightarrow> search p s)"

section \<open>Exceptions and conversions\<close>

datatype oserror = FileNotFoundError | PermissionError | IsADirectoryError

datatype exn = OSError oserror | UnicodeDecodeError | ValueError | OverflowError

definition is_digit :: "char \<Rightarrow> bool" where
  "is_digit c = in_class Digit c"

definition digit_val :: "char \<Rightarrow> nat" where
  "digit_val c = of_char c - 48"

definition decimal :: "string \<Rightarrow> nat" where
  "decimal ds = foldl (\<lambda>n c. 10 * n + digit_val c) 0 ds"

text \<open>A leading sign: the flag says whether it is a minus.\<close>

fun sign :: "string \<Rightarrow> bool \<times> string" where
  "sign (c # s) = (if c = CHR ''-'' then (True, s) else if c = CHR ''+'' then (False, s)
                    else (False, c # s))"
| "sign [] = (False, [])"

text \<open>
  \<open>int(s)\<close> on a string of signs and digits (blanks and underscores, which \<open>int\<close>
  also accepts, are in no class of the pattern). \<open>maxd\<close> is the interpreter's
  \<open>int_max_str_digits\<close>: when it is not 0, a string of more digits is refused with
  ValueError. Interpreters without the limit behave as \<open>maxd = 0\<close>.
\<close>

definition py_int :: "nat \<Rightarrow> string \<Rightarrow> exn + int" where
  "py_int maxd s =
     (case sign s of (neg, ds) \<Rightarrow>
        if ds = [] \<or> \<not> list_all is_digit ds then Inl ValueError
        else if maxd \<noteq> 0 \<and> maxd < length ds then Inl ValueError
        else Inr (if neg then - int (decimal ds) else int (decimal ds)))"

text \<open>
  \<open>float(s)\<close> on a string over the signs, the digits, the point and the exponent
  letter: an optional sign, digits with an optional point (at least one digit before or
  after it) and an optional exponent with its own optional sign and at least one digit.
  A Python float is modelled by the real number the literal denotes; rounding to
  binary64 is not modelled.
\<close>

definition scale :: "real \<Rightarrow> int \<Rightarrow> real" where
  "scale x e = (if 0 \<le> e then x * 10 ^ nat e else x / 10 ^ nat (- e))"

definition py_float :: "string \<Rightarrow> exn + real" where
  "py_float s =
     (case sign s of (neg, r) \<Rightarrow>
        let ip = takeWhile is_digit r;
            r1 = dropWhile is_digit r;
            fp = (case r1 of [] \<Rightarrow> [] | c # r' \<Rightarrow>
                    if c = CHR ''.'' then takeWhile is_digit r' else []);
            r2 = (case r1 of [] \<Rightarrow> [] | c # r' \<Rightarrow>
                    if c = CHR ''.'' then dropWhile is_digit r' else r1);
            m = real (decimal (ip @ fp));
            v = (if neg then - m else m)
        in if ip = [] \<and> fp = [] then Inl ValueError
           else (case r2 of
                   [] \<Rightarrow> Inr (scale v (- int (length fp)))
                 | c # r3 \<Rightarrow>
                     if c = CHR ''E'' \<or> c = CHR ''e'' then
                       (case sign r3 of (eneg, ed) \<Rightarrow>
                          if ed = [] \<or> \<not> list_all is_digit ed then Inl ValueError
                          else Inr (scale v ((if eneg then - int (decimal ed)
                                              else int (decimal ed)) - int (length fp))))
                     else Inl ValueError))"

section \<open>The environment of a call and parse\_log\<close>

text \<open>
  What \<open>ax.plot(x, y)\<close> is given: \<open>self.steps\<close> is a list of ints, the other five lists
  are lists of floats.
\<close>

datatype series = Ints "int list" | Floats "real list"

text \<open>One subplot after \<open>update_plots\<close> has drawn it: the texts and the plotted lines
  (x data, y data, colour).\<close>

record chart =
  title :: string
  xlabel :: string
  ylabel :: string
  plotted :: "(series \<times> series \<times> string) list"

text \<open>
  What the operating system, the interpreter and matplotlib answer during one call:
  \<open>os.path.getmtime(self.log_path)\<close> (an OSError or a time stamp), \<open>time.time()\<close>,
  opening and reading the log file (an exception or its lines), the interpreter's
  limit on the digits of \<open>int\<close>, and the drawing. matplotlib raises on some data
  (OverflowError in \<open>ax.plot\<close>, ValueError in \<open>figure.tight_layout\<close>): \<open>draw\<close> is
  \<open>None\<close> when every drawing call of \<open>update_plots\<close> returns, and \<open>Some (k, x, c)\<close> when
  one raises \<open>x\<close>: \<open>ax.plot\<close> of subplot \<open>k\<close>, which it leaves as \<open>c\<close>, or, for \<open>k\<close>
  beyond the last subplot, \<open>tight_layout\<close> or \<open>canvas.draw\<close> after the loop.
\<close>

record env =
  getmtime :: "oserror + real"
  now :: real
  open_log :: "exn + string list"
  int_max_str_digits :: nat
  draw :: "(nat \<times> exn \<times> chart) option"

text \<open>The six lists of \<open>parse_log\<close>, in the order of its return statement.\<close>

type_synonym columns =
  "int list \<times> real list \<times> real list \<times> real list \<times> real list \<times> real list"

text \<open>
  The body of the \<open>for\<close> loop for one line: the six conversions in the order of the
  source, each of which can raise, and then the six lists with one more element each.
\<close>

definition parse_line :: "nat \<Rightarrow> string \<Rightarrow> columns \<Rightarrow> exn + columns" where
  "parse_line maxd line acc =
     (case acc of (steps, times', dts, cfls, total_times, step_times) \<Rightarrow>
        (case search pattern line of
           None \<Rightarrow> Inr acc
         | Some m \<Rightarrow>
             (case py_int maxd (m ! 0) of Inl e \<Rightarrow> Inl e | Inr a \<Rightarrow>
              case py_float (m ! 1) of Inl e \<Rightarrow> Inl e | Inr b \<Rightarrow>
              case py_float (m ! 2) of Inl e \<Rightarrow> Inl e | Inr c \<Rightarrow>
              case py_float (m ! 3) of Inl e \<Rightarrow> Inl e | Inr d \<Rightarrow>
              case py_float (m ! 4) of Inl e \<Rightarrow> Inl e | Inr f \<Rightarrow>
              case py_float (m ! 5) of Inl e \<Rightarrow> Inl e | Inr g \<Rightarrow>
                Inr (steps @ [a], times' @ [b], dts @ [c], cfls @ [d],
                     total_times @ [f], step_times @ [g]))))"

fun parse_lines :: "nat \<Rightarrow> string list \<Rightarrow> columns \<Rightarrow> exn + columns" where
  "parse_lines maxd [] acc = Inr acc"
| "parse_lines maxd (line # ls) acc =
     (case parse_line maxd line acc of Inl e \<Rightarrow> Inl e | Inr acc' \<Rightarrow> parse_lines maxd ls acc')"

text \<open>
  \<open>parse_log\<close>: only FileNotFoundError is caught, and the lists are returned as they are
  then (empty, since \<open>open\<close> raises it before the loop); every other exception leaves
  the function.
\<close>

definition parse_log :: "env \<Rightarrow> exn + columns" where
  "parse_log e =
     (case open_log e of
        Inl x \<Rightarrow> (if x = OSError FileNotFoundError then Inr ([], [], [], [], [], []) else Inl x)
      | Inr ls \<Rightarrow> parse_lines (int_max_str_digits e) ls ([], [], [], [], [], []))"

section \<open>The monitor\<close>

text \<open>
  The artists a pick event can carry: \<open>XLabel i\<close> is the x-axis label of \<open>self.axes[i]\<close>,
  the object that \<open>ax.set_xlabel\<close> returns for that subplot.
\<close>

datatype artist = XLabel nat | OtherArtist nat

datatype led = Update_led | Delay_led

record monitor =
  poll_interval_ms :: int
  last_file_mod :: real
  last_update_time :: real
  steps :: "int list"
  times' :: "real list"
  dts :: "real list"
  cfls :: "real list"
  total_times :: "real list"
  step_times :: "real list"
  x_modes :: "string list"
  axes :: "chart list"
  label_texts :: "artist list"
  colors :: "string list"

definition columns_of :: "monitor \<Rightarrow> columns" where
  "columns_of s = (steps s, times' s, dts s, cfls s, total_times s, step_times s)"

definition init_ui :: "monitor \<Rightarrow> monitor" where
  "init_ui s =
     s\<lparr>axes := replicate 5 \<lparr>title = [], xlabel = [], ylabel = [], plotted = []\<rparr>,
       label_texts := [],
       colors := [''#FF6F61'', ''#6B5B95'', ''#88B04B'', ''#F7CAC9'', ''#92A8D1'']\<rparr>"

text \<open>\<open>__init__\<close>: any OSError of \<open>getmtime\<close> gives the modification time 0.\<close>

definition init :: "env \<Rightarrow> monitor" where
  "init e =
     init_ui \<lparr>poll_interval_ms = 1000,
              last_file_mod = (case getmtime e of Inl x \<Rightarrow> 0 | Inr m \<Rightarrow> m),
              last_update_time = now e,
              steps = [], times' = [], dts = [], cfls = [], total_times = [],
              step_times = [],
              x_modes = replicate 5 ''step'',
              axes = [], label_texts = [], colors = []\<rparr>"

definition titles :: "string list" where
  "titles = [''Solution Time vs Step'', ''Time Step (DT)'', ''CFL'', ''Total Wall Time'',
             ''Step Wall Time'']"

definition ylabels :: "string list" where
  "ylabels = [''Solution Time'', ''DT'', ''CFL'', ''Total Wall Time'', ''Step Wall Time'']"

definition data_sets :: "monitor \<Rightarrow> real list list" where
  "data_sets s = [times' s, dts s, cfls s, total_times s, step_times s]"

text \<open>The body of the loop of \<open>update_plots\<close> for subplot \<open>i\<close>.\<close>

definition plot_axis :: "monitor \<Rightarrow> nat \<Rightarrow> chart" where
  "plot_axis s i =
     (let mode = x_modes s ! i in
      if i = 0 then
        (if mode = ''step''
         then \<lparr>title = titles ! i, xlabel = ''Step'', ylabel = ''Solution Time'',
               plotted = [(Ints (steps s), Floats (times' s), colors s ! i)]\<rparr>
         else \<lparr>title = titles ! i, xlabel = ''Solution Time'', ylabel = ''Step'',
               plotted = [(Floats (times' s), Ints (steps s), colors s ! i)]\<rparr>)
      else
        (let ydata = data_sets s ! i in
         if mode = ''step''
         then \<lparr>title = titles ! i, xlabel = ''Step'', ylabel = ylabels ! i,
               plotted = [(Ints (steps s), Floats ydata, colors s ! i)]\<rparr>
         else \<lparr>title = titles ! i, xlabel = ''Solution Time'', ylabel = ylabels ! i,
               plotted = [(Floats (times' s), Floats ydata, colors s ! i)]\<rparr>))"

definition update_plots :: "monitor \<Rightarrow> monitor" where
  "update_plots s =
     s\<lparr>label_texts := map XLabel [0..<length (axes s)],
       axes := map (plot_axis s) [0..<length (axes s)]\<rparr>"

text \<open>
  \<open>update_plots\<close> left by an exception of the drawing of subplot \<open>k\<close>: the labels are
  cleared, the subplots before \<open>k\<close> are drawn and their labels registered, subplot \<open>k\<close>
  is as \<open>ax.clear\<close> and the failed \<open>ax.plot\<close> leave it, the later ones are untouched.
  For \<open>k\<close> beyond the last subplot the loop is complete.
\<close>

definition update_plots_stopped :: "nat \<Rightarrow> chart \<Rightarrow> monitor \<Rightarrow> monitor" where
  "update_plots_stopped k c s =
     s\<lparr>label_texts := map XLabel [0..<min k (length (axes s))],
       axes := map (\<lambda>i. if i < k then plot_axis s i else if i = k then c else axes s ! i)
                 [0..<length (axes s)]\<rparr>"

text \<open>\<open>xs.index(a)\<close> for an \<open>a\<close> that is in \<open>xs\<close>: the first position of \<open>a\<close>.\<close>

fun index_of :: "'a list \<Rightarrow> 'a \<Rightarrow> nat" where
  "index_of [] a = 0"
| "index_of (x # xs) a = (if x = a then 0 else Suc (index_of xs a))"

definition on_label_click :: "artist \<Rightarrow> monitor \<Rightarrow> monitor" where
  "on_label_click a s =
     (if a \<in> set (label_texts s) then
        (let idx = index_of (label_texts s) a in
         update_plots
           (s\<lparr>x_modes := (x_modes s)[idx := (if x_modes s ! idx = ''step'' then ''time''
                                               else ''step'')]\<rparr>))
      else s)"

text \<open>
  \<open>flash_led\<close> colours a LED and schedules its return to gray 50 ms later. A call of
  \<open>update_data\<close> is modelled with the list of the flashes it made, the exception that
  left it (if any) and the monitor as the call leaves it. The exception is the one of
  \<open>parse_log\<close>, raised before the six lists are assigned, or the one of the drawing in
  \<open>update_plots\<close>, raised after.
\<close>

definition flash_led :: "led \<Rightarrow> string \<Rightarrow> (led \<times> string) list \<Rightarrow> (led \<times> string) list" where
  "flash_led l color out = out @ [(l, color)]"

record outcome =
  raised :: "exn option"
  flashed :: "(led \<times> string) list"
  monitor_after :: monitor

definition update_data :: "env \<Rightarrow> monitor \<Rightarrow> outcome" where
  "update_data e s =
     (let mod' = (case getmtime e of Inl x \<Rightarrow> 0 | Inr m \<Rightarrow> m);
          out1 = (if mod' > last_file_mod s then flash_led Update_led ''green'' [] else []);
          s1 = (if mod' > last_file_mod s then s\<lparr>last_file_mod := mod'\<rparr> else s);
          elapsed = now e - last_update_time s1;
          out2 = (if elapsed > (real_of_int (poll_interval_ms s1) / 1000) * 1.1
                  then flash_led Delay_led ''red'' out1 else out1);
          s2 = s1\<lparr>last_update_time := now e\<rparr>
      in case parse_log e of
           Inl x \<Rightarrow> \<lparr>raised = Some x, flashed = out2, monitor_after = s2\<rparr>
         | Inr (a, b, c, d, f, g) \<Rightarrow>
             (let s3 = s2\<lparr>steps := a, times' := b, dts := c, cfls := d,
                          total_times := f, step_times := g\<rparr>
              in case draw e of
                   None \<Rightarrow> \<lparr>raised = None, flashed = out2, monitor_after = update_plots s3\<rparr>
                 | Some (k, x, ch) \<Rightarrow>
                     \<lparr>raised = Some x, flashed = out2,
                      monitor_after = update_plots_stopped k ch s3\<rparr>))"

text \<open>The states of the monitor: built by \<open>__init__\<close>, then changed by timer ticks and
  by pick events, in any order and with any answers of the environment. A pick event
  is taken with a drawing that returns.\<close>

inductive reachable :: "monitor \<Rightarrow> bool" where
  reach_init: "reachable (init e)"
| reach_tick: "reachable s \<Longrightarrow> reachable (monitor_after (update_data e s))"
| reach_click: "reachable s \<Longrightarrow> reachable (on_label_click a s)"

section \<open>Notions used in the statements\<close>

text \<open>The classes of the capturing groups of a pattern, in order, and what a captured
  group of class \<open>c\<close> is: a non-empty string of characters of \<open>c\<close>.\<close>

fun captures :: "token list \<Rightarrow> cclass list" where
  "captures [] = []"
| "captures (Group c # ts) = c # captures ts"
| "captures (t # ts) = captures ts"

definition group_of :: "cclass \<Rightarrow> string \<Rightarrow> bool" where
  "group_of c g = (g \<noteq> [] \<and> list_all (in_class c) g)"

text \<open>The groups of the lines on which the pattern matches, in the order of the lines.\<close>

definition matched :: "string list \<Rightarrow> string list list" where
  "matched ls = List.map_filter (search pattern) ls"

text \<open>A sample environment: a log of two lines, of which the first matches.\<close>

definition env1 :: env where
  "env1 = \<lparr>getmtime = Inr 5, now = 7,
            open_log = Inr [''Step 1, t= 2.5, DT= 3, C= 4 5 6'', ''junk''],
            int_max_str_digits = 4300, draw = None\<rparr>"

text \<open>
  What \<open>parse_log\<close> needs of the groups of a match to get through the six conversions:
  group 1 within the interpreter's limit on digits, and \<open>float\<close> accepting groups 2 to 6.
\<close>

definition accepted :: "nat \<Rightarrow> string list \<Rightarrow> bool" where
  "accepted maxd m =
     ((maxd = 0 \<or> length (m ! 0) \<le> maxd) \<and> \<not> isl (py_float (m ! 1)) \<and>
      \<not> isl (py_float (m ! 2)) \<and> \<not> isl (py_float (m ! 3)) \<and> \<not> isl (py_float (m ! 4)) \<and>
      \<not> isl (py_float (m ! 5)))"

text \<open>A log whose only line matches the pattern with \<open>E\<close> as its second group.\<close>

definition env_bad :: env where
  "env_bad = \<lparr>getmtime = Inr 5, now = 7,
               open_log = Inr [''Step 1, t= E, DT= 1, C= 1 1 1''],
               int_max_str_digits = 4300, draw = None\<rparr>"

text \<open>The six lists have the same length.\<close>

definition equal_lengths :: "columns \<Rightarrow> bool" where
  "equal_lengths cols =
     (case cols of (a, b, c, d, f, g) \<Rightarrow>
        length b = length a \<and> length c = length a \<and> length d = length a \<and>
        length f = length a \<and> length g = length a)"

text \<open>What holds of the monitor in every state it reaches (see \<open>reachable_ok\<close>).\<close>

definition monitor_ok :: "monitor \<Rightarrow> bool" where
  "monitor_ok s =
     (poll_interval_ms s = 1000 \<and> equal_lengths (columns_of s) \<and>
      length (x_modes s) = 5 \<and> list_all (\<lambda>m. m = ''step'' \<or> m = ''time'') (x_modes s) \<and>
      length (axes s) = 5 \<and> length (colors s) = 5 \<and>
      length (label_texts s) \<le> 5 \<and> label_texts s = map XLabel [0..<length (label_texts s)])"

text \<open>Each list of \<open>old\<close> is a prefix of its list in \<open>new\<close>.\<close>

definition prefix_columns :: "columns \<Rightarrow> columns \<Rightarrow> bool" where
  "prefix_columns old new =
     (case old of (a, b, c, d, f, g) \<Rightarrow> case new of (a', b', c', d', f', g') \<Rightarrow>
        prefix a a' \<and> prefix b b' \<and> prefix c c' \<and> prefix d d' \<and> prefix f f' \<and> prefix g g')"

text \<open>More sample environments: \<open>getmtime\<close> refused, the file absent, an empty log,
  and the log of \<open>env1\<close> with one more line.\<close>

definition env_perm :: env where
  "env_perm = \<lparr>getmtime = Inl PermissionError, now = 7, open_log = Inr [],
                int_max_str_digits = 4300, draw = None\<rparr>"

definition env_absent :: env where
  "env_absent = \<lparr>getmtime = Inl FileNotFoundError, now = 7,
                  open_log = Inl (OSError FileNotFoundError), int_max_str_digits = 4300, draw = None\<rparr>"

definition env_empty :: env where
  "env_empty = \<lparr>getmtime = Inr 6, now = 10, open_log = Inr [], int_max_str_digits = 4300, draw = None\<rparr>"

definition env_grown :: env where
  "env_grown = \<lparr>getmtime = Inr 6, now = 8,
                 open_log = Inr [''Step 1, t= 2.5, DT= 3, C= 4 5 6'', ''junk'',
                                 ''Step 2, t= 3, DT= 3, C= 4 5 6''],
                 int_max_str_digits = 4300, draw = None\<rparr>"

text \<open>A log file dated one second before the epoch, and two states of the monitor: after
  a first tick on \<open>env1\<close>, and after a click on the first x-axis label then.\<close>

definition env_old :: env where
  "env_old = \<lparr>getmtime = Inr (- 1), now = 7, open_log = Inr [], int_max_str_digits = 4300, draw = None\<rparr>"

definition state1 :: monitor where
  "state1 = monitor_after (update_data env1 (init env1))"

definition state2 :: monitor where
  "state2 = on_label_click (XLabel 0) state1"


section \<open>The matcher\<close>

lemma first_some_SomeD: "first_some f ks = Some y \<Longrightarrow> \<exists>k\<in>set ks. f k = Some y"
  by (induction ks) (auto split: option.splits)

lemma set_lengths: "k \<in> set (lengths lo n) \<longleftrightarrow> lo \<le> k \<and> k \<le> n"
  by (induction n) auto

lemma take_run: "k \<le> run c s \<Longrightarrow> list_all (in_class c) (take k s)"
proof (induction s arbitrary: k)
  case Nil
  then show ?case by simp
next
  case (Cons x s)
  show ?case
  proof (cases k)
    case 0
    then show ?thesis by simp
  next
    case (Suc j)
    with Cons.prems have "in_class c x" "j \<le> run c s"
      by (auto simp: run_def split: if_splits)
    with Cons.IH Suc show ?thesis by simp
  qed
qed

lemma match_here_groups:
  "match_here ts s = Some gs \<Longrightarrow> list_all2 group_of (captures ts) gs"
proof (induction ts arbitrary: s gs)
  case Nil
  then show ?case by simp
next
  case (Cons t ts)
  show ?case
  proof (cases t)
    case (Literal w)
    with Cons show ?thesis by (auto split: if_splits)
  next
    case (ZeroOrMore c)
    with Cons.prems obtain k where "match_here ts (drop k s) = Some gs"
      by (auto dest: first_some_SomeD)
    with Cons.IH ZeroOrMore show ?thesis by simp
  next
    case (OneOrMore c)
    with Cons.prems obtain k where "match_here ts (drop k s) = Some gs"
      by (auto dest: first_some_SomeD)
    with Cons.IH OneOrMore show ?thesis by simp
  next
    case (Group c)
    with Cons.prems obtain k where k: "k \<in> set (lengths 1 (run c s))"
      and m: "map_option ((#) (take k s)) (match_here ts (drop k s)) = Some gs"
      by (auto dest: first_some_SomeD)
    from m obtain gs' where gs': "match_here ts (drop k s) = Some gs'" "gs = take k s # gs'"
      by auto
    from k have k1: "1 \<le> k" "k \<le> run c s" by (simp_all add: set_lengths)
    then have "k \<le> length s" unfolding run_def
      by (meson le_trans length_takeWhile_le)
    with k1 have "take k s \<noteq> []" by auto
    with k1 have "group_of c (take k s)" by (simp add: group_of_def take_run)
    with Cons.IH[OF gs'(1)] gs'(2) Group show ?thesis by simp
  qed
qed

lemma search_groups: "search p s = Some gs \<Longrightarrow> list_all2 group_of (captures p) gs"
  by (induction s) (auto split: option.splits dest: match_here_groups)

lemma captures_pattern: "captures pattern = [Digit, Number, Number, Number, Number, Number]"
  by (simp add: pattern_def)

lemma search_pattern_groups:
  assumes "search pattern line = Some m"
  shows "\<exists>g1 g2 g3 g4 g5 g6. m = [g1, g2, g3, g4, g5, g6] \<and> group_of Digit g1 \<and>
           group_of Number g2 \<and> group_of Number g3 \<and> group_of Number g4 \<and>
           group_of Number g5 \<and> group_of Number g6"
  using search_groups[OF assms] unfolding captures_pattern
  by (auto simp: list_all2_Cons1)

section \<open>parse\_log\<close>

lemma matched_Nil: "matched [] = []"
  by (simp add: matched_def map_filter_simps)

lemma matched_Cons_None: "search pattern l = None \<Longrightarrow> matched (l # ls) = matched ls"
  by (simp add: matched_def map_filter_simps)

lemma matched_Cons_Some: "search pattern l = Some m \<Longrightarrow> matched (l # ls) = m # matched ls"
  by (simp add: matched_def map_filter_simps)

lemma parse_line_None:
  "search pattern l = None \<Longrightarrow> parse_line maxd l acc = Inr acc"
  by (simp add: parse_line_def split: prod.splits)

lemma parse_line_Some:
  assumes "search pattern l = Some m"
    and "parse_line maxd l (a0, b0, c0, d0, f0, g0) = Inr r"
  shows "\<exists>a b c d f g. py_int maxd (m ! 0) = Inr a \<and> py_float (m ! 1) = Inr b \<and>
           py_float (m ! 2) = Inr c \<and> py_float (m ! 3) = Inr d \<and>
           py_float (m ! 4) = Inr f \<and> py_float (m ! 5) = Inr g \<and>
           r = (a0 @ [a], b0 @ [b], c0 @ [c], d0 @ [d], f0 @ [f], g0 @ [g])"
  using assms by (simp add: parse_line_def split: sum.splits)

lemma parse_lines_rows:
  "parse_lines maxd ls (a0, b0, c0, d0, f0, g0) = Inr (a, b, c, d, f, g) \<Longrightarrow>
   \<exists>a' b' c' d' f' g'.
     a = a0 @ a' \<and> b = b0 @ b' \<and> c = c0 @ c' \<and> d = d0 @ d' \<and> f = f0 @ f' \<and> g = g0 @ g' \<and>
     list_all2 (\<lambda>m x. py_int maxd (m ! 0) = Inr x) (matched ls) a' \<and>
     list_all2 (\<lambda>m x. py_float (m ! 1) = Inr x) (matched ls) b' \<and>
     list_all2 (\<lambda>m x. py_float (m ! 2) = Inr x) (matched ls) c' \<and>
     list_all2 (\<lambda>m x. py_float (m ! 3) = Inr x) (matched ls) d' \<and>
     list_all2 (\<lambda>m x. py_float (m ! 4) = Inr x) (matched ls) f' \<and>
     list_all2 (\<lambda>m x. py_float (m ! 5) = Inr x) (matched ls) g'"
proof (induction ls arbitrary: a0 b0 c0 d0 f0 g0)
  case Nil
  then show ?case by (simp add: matched_Nil)
next
  case (Cons l ls)
  show ?case
  proof (cases "search pattern l")
    case None
    with Cons.prems have "parse_lines maxd ls (a0, b0, c0, d0, f0, g0) = Inr (a, b, c, d, f, g)"
      by (simp add: parse_line_None)
    from Cons.IH[OF this] show ?thesis by (simp add: matched_Cons_None[OF None])
  next
    case (Some m)
    from Cons.prems obtain r where r: "parse_line maxd l (a0, b0, c0, d0, f0, g0) = Inr r"
      and rest: "parse_lines maxd ls r = Inr (a, b, c, d, f, g)"
      by (auto split: sum.splits)
    from parse_line_Some[OF Some r] obtain xa xb xc xd xf xg where
      conv: "py_int maxd (m ! 0) = Inr xa" "py_float (m ! 1) = Inr xb"
        "py_float (m ! 2) = Inr xc" "py_float (m ! 3) = Inr xd"
        "py_float (m ! 4) = Inr xf" "py_float (m ! 5) = Inr xg"
      and req: "r = (a0 @ [xa], b0 @ [xb], c0 @ [xc], d0 @ [xd], f0 @ [xf], g0 @ [xg])"
      by blast
    from Cons.IH[OF rest[unfolded req]] obtain a' b' c' d' f' g' where
      eqs: "a = (a0 @ [xa]) @ a'" "b = (b0 @ [xb]) @ b'" "c = (c0 @ [xc]) @ c'"
        "d = (d0 @ [xd]) @ d'" "f = (f0 @ [xf]) @ f'" "g = (g0 @ [xg]) @ g'"
      and all2: "list_all2 (\<lambda>m x. py_int maxd (m ! 0) = Inr x) (matched ls) a'"
        "list_all2 (\<lambda>m x. py_float (m ! 1) = Inr x) (matched ls) b'"
        "list_all2 (\<lambda>m x. py_float (m ! 2) = Inr x) (matched ls) c'"
        "list_all2 (\<lambda>m x. py_float (m ! 3) = Inr x) (matched ls) d'"
        "list_all2 (\<lambda>m x. py_float (m ! 4) = Inr x) (matched ls) f'"
        "list_all2 (\<lambda>m x. py_float (m ! 5) = Inr x) (matched ls) g'"
      by blast
    show ?thesis
      apply (rule exI[of _ "xa # a'"], rule exI[of _ "xb # b'"], rule exI[of _ "xc # c'"])
      apply (rule exI[of _ "xd # d'"], rule exI[of _ "xf # f'"], rule exI[of _ "xg # g'"])
      using eqs all2 conv by (simp add: matched_Cons_Some[OF Some])
  qed
qed

lemma matched_six: "list_all (\<lambda>m. length m = 6) (matched ls)"
proof -
  have "length m = 6" if "search pattern l = Some m" for l m
    using search_pattern_groups[OF that] by auto
  then show ?thesis
    by (auto simp: matched_def list_all_iff map_filter_def)
qed

lemma draw_samples:
  "draw env1 = None" "draw env_bad = None" "draw env_perm = None" "draw env_absent = None"
  "draw env_empty = None" "draw env_grown = None" "draw env_old = None"
  by (simp_all add: env1_def env_bad_def env_perm_def env_absent_def env_empty_def
      env_grown_def env_old_def)

lemma open_log_env1: "open_log env1 = Inr [''Step 1, t= 2.5, DT= 3, C= 4 5 6'', ''junk'']"
  by (simp add: env1_def)

lemma parse_log_env1: "parse_log env1 = Inr ([1], [2.5], [3], [4], [5], [6])"
  by (simp add: env1_def parse_log_def parse_line_def pattern_def run_def py_int_def
      py_float_def is_digit_def decimal_def digit_val_def scale_def)

lemma sign_digit: "in_class Digit c \<Longrightarrow> sign (c # cs) = (False, c # cs)"
  by auto

lemma py_int_group:
  assumes "group_of Digit g"
  shows "py_int maxd g = (if maxd \<noteq> 0 \<and> maxd < length g then Inl ValueError
                          else Inr (int (decimal g)))"
proof -
  from assms obtain c cs where g: "g = c # cs" and c: "in_class Digit c"
    and all: "list_all is_digit g"
    by (cases g) (auto simp: group_of_def is_digit_def list_all_iff)
  from sign_digit[OF c] g have "sign g = (False, g)" by simp
  with all g show ?thesis by (simp add: py_int_def)
qed

lemma py_float_error: "py_float s = Inl x \<Longrightarrow> x = ValueError"
  by (auto simp: py_float_def Let_def split: prod.splits list.splits if_splits)

lemma isl_py_float: "isl (py_float s) \<longleftrightarrow> py_float s = Inl ValueError"
  by (cases "py_float s") (auto dest: py_float_error)

lemma py_float_cases: "py_float s = Inl ValueError \<or> (\<exists>v. py_float s = Inr v)"
  by (cases "py_float s") (auto dest: py_float_error)

lemma parse_line_accepted:
  assumes "search pattern l = Some m"
  shows "accepted maxd m \<Longrightarrow> \<exists>r. parse_line maxd l acc = Inr r"
    and "\<not> accepted maxd m \<Longrightarrow> parse_line maxd l acc = Inl ValueError"
proof -
  obtain a0 b0 c0 d0 f0 g0 where acc: "acc = (a0, b0, c0, d0, f0, g0)"
    by (rule prod_cases6)
  from search_pattern_groups[OF assms] have g: "group_of Digit (m ! 0)" by auto
  note i = py_int_group[OF g, of maxd]
  note f = py_float_cases[of "m ! 1"] py_float_cases[of "m ! 2"] py_float_cases[of "m ! 3"]
    py_float_cases[of "m ! 4"] py_float_cases[of "m ! 5"]
  show "\<exists>r. parse_line maxd l acc = Inr r" if "accepted maxd m"
  proof -
    from that i have "py_int maxd (m ! 0) = Inr (int (decimal (m ! 0)))"
      by (auto simp: accepted_def)
    moreover from that f obtain b c d f g where "py_float (m ! 1) = Inr b"
      "py_float (m ! 2) = Inr c" "py_float (m ! 3) = Inr d" "py_float (m ! 4) = Inr f"
      "py_float (m ! 5) = Inr g"
      by (auto simp: accepted_def)
    ultimately show ?thesis using assms acc by (simp add: parse_line_def)
  qed
  show "parse_line maxd l acc = Inl ValueError" if "\<not> accepted maxd m"
  proof -
    from that consider "py_int maxd (m ! 0) = Inl ValueError"
      | "py_float (m ! 1) = Inl ValueError" | "py_float (m ! 2) = Inl ValueError"
      | "py_float (m ! 3) = Inl ValueError" | "py_float (m ! 4) = Inl ValueError"
      | "py_float (m ! 5) = Inl ValueError"
      using i by (auto simp: accepted_def isl_py_float split: if_splits)
    then show ?thesis
    proof cases
      case 1
      with assms acc show ?thesis by (simp add: parse_line_def)
    next
      case 2
      with assms acc i show ?thesis by (simp add: parse_line_def split: sum.splits)
    next
      case 3
      with assms acc i f(1) show ?thesis by (auto simp: parse_line_def split: sum.splits)
    next
      case 4
      with assms acc i f(1,2) show ?thesis
        by (auto simp: parse_line_def split: sum.splits)
    next
      case 5
      with assms acc i f(1,2,3) show ?thesis
        by (auto simp: parse_line_def split: sum.splits)
    next
      case 6
      with assms acc i f(1,2,3,4) show ?thesis
        by (auto simp: parse_line_def split: sum.splits)
    qed
  qed
qed

lemma parse_lines_accepted:
  "(list_all (accepted maxd) (matched ls) \<longrightarrow> \<not> isl (parse_lines maxd ls acc)) \<and>
   (\<not> list_all (accepted maxd) (matched ls) \<longrightarrow> parse_lines maxd ls acc = Inl ValueError)"
proof (induction ls arbitrary: acc)
  case Nil
  then show ?case by (simp add: matched_Nil)
next
  case (Cons l ls)
  show ?case
  proof (cases "search pattern l")
    case None
    with Cons.IH[of acc] show ?thesis
      by (simp add: parse_line_None matched_Cons_None)
  next
    case (Some m)
    show ?thesis
    proof (cases "accepted maxd m")
      case True
      from parse_line_accepted(1)[OF Some True] obtain r where
        "parse_line maxd l acc = Inr r" by blast
      with Cons.IH[of r] True show ?thesis
        by (simp add: matched_Cons_Some[OF Some])
    next
      case False
      from parse_line_accepted(2)[OF Some False] have
        "parse_line maxd l acc = Inl ValueError" .
      with False show ?thesis
        by (simp add: matched_Cons_Some[OF Some])
    qed
  qed
qed

lemma parse_log_env_bad: "parse_log env_bad = Inl ValueError"
  by (simp add: env_bad_def parse_log_def parse_line_def pattern_def run_def py_int_def
      py_float_def is_digit_def decimal_def digit_val_def scale_def)

lemma accepted_env1:
  "list_all (accepted 4300) (matched [''Step 1, t= 2.5, DT= 3, C= 4 5 6'', ''junk''])"
  by (simp add: matched_def map_filter_def accepted_def pattern_def run_def
      py_float_def is_digit_def decimal_def digit_val_def scale_def)

text \<open>
  C1, as the code has it. A line on which the pattern matches does not always give an
  element to each of the six lists: when \<open>float\<close> refuses one of its groups, the
  exception leaves \<open>parse_log\<close> and no list is returned, the element already appended to
  \<open>steps\<close> being lost with it.
\<close>

theorem matching_line_lost:
  "open_log env_bad = Inr [''Step 1, t= E, DT= 1, C= 1 1 1''] \<and>
   matched [''Step 1, t= E, DT= 1, C= 1 1 1''] = [[''1'', ''E'', ''1'', ''1'', ''1'', ''1'']] \<and>
   parse_log env_bad = Inl ValueError"
  by (simp add: parse_log_env_bad)
    (simp add: env_bad_def matched_def map_filter_def pattern_def run_def)

text \<open>
  C1, amended. On the lines of a present file, when the conversions accept the groups of
  every match, \<open>parse_log\<close> returns six lists, each of which has exactly one element for
  every line on which the pattern matches, in the order of the lines, and nothing for
  the other lines: the element of \<open>steps\<close> is \<open>int\<close> of group 1, the elements of
  \<open>times\<close>, \<open>dts\<close>, \<open>cfls\<close>, \<open>total_times\<close> and \<open>step_times\<close> are \<open>float\<close> of groups 2
  to 6. When a conversion refuses a group of some match, \<open>parse_log\<close> raises ValueError
  and returns no list. Every match has six groups.
\<close>

theorem parse_log_rows:
  assumes "open_log e = Inr ls"
  shows "list_all (\<lambda>m. length m = 6) (matched ls) \<and>
         (list_all (accepted (int_max_str_digits e)) (matched ls) \<longrightarrow>
            (\<exists>st ti dt cf tt sp.
               parse_log e = Inr (st, ti, dt, cf, tt, sp) \<and>
               list_all2 (\<lambda>m x. py_int (int_max_str_digits e) (m ! 0) = Inr x) (matched ls) st \<and>
               list_all2 (\<lambda>m x. py_float (m ! 1) = Inr x) (matched ls) ti \<and>
               list_all2 (\<lambda>m x. py_float (m ! 2) = Inr x) (matched ls) dt \<and>
               list_all2 (\<lambda>m x. py_float (m ! 3) = Inr x) (matched ls) cf \<and>
               list_all2 (\<lambda>m x. py_float (m ! 4) = Inr x) (matched ls) tt \<and>
               list_all2 (\<lambda>m x. py_float (m ! 5) = Inr x) (matched ls) sp)) \<and>
         (\<not> list_all (accepted (int_max_str_digits e)) (matched ls) \<longrightarrow>
            parse_log e = Inl ValueError)"
proof (intro conjI impI)
  show "list_all (\<lambda>m. length m = 6) (matched ls)" by (rule matched_six)
next
  have p: "parse_log e = parse_lines (int_max_str_digits e) ls ([], [], [], [], [], [])"
    using assms by (simp add: parse_log_def)
  note a = parse_lines_accepted[of "int_max_str_digits e" ls "([], [], [], [], [], [])"]
  {
    assume "list_all (accepted (int_max_str_digits e)) (matched ls)"
    with a p have "\<not> isl (parse_log e)" by simp
    then obtain r where "parse_log e = Inr r" by (cases "parse_log e") auto
    moreover obtain st ti dt cf tt sp where "r = (st, ti, dt, cf, tt, sp)"
      by (rule prod_cases6)
    ultimately have r: "parse_log e = Inr (st, ti, dt, cf, tt, sp)" by simp
    from parse_lines_rows[OF r[unfolded p]] r
    show "\<exists>st ti dt cf tt sp.
               parse_log e = Inr (st, ti, dt, cf, tt, sp) \<and>
               list_all2 (\<lambda>m x. py_int (int_max_str_digits e) (m ! 0) = Inr x) (matched ls) st \<and>
               list_all2 (\<lambda>m x. py_float (m ! 1) = Inr x) (matched ls) ti \<and>
               list_all2 (\<lambda>m x. py_float (m ! 2) = Inr x) (matched ls) dt \<and>
               list_all2 (\<lambda>m x. py_float (m ! 3) = Inr x) (matched ls) cf \<and>
               list_all2 (\<lambda>m x. py_float (m ! 4) = Inr x) (matched ls) tt \<and>
               list_all2 (\<lambda>m x. py_float (m ! 5) = Inr x) (matched ls) sp"
      by auto
  }
  {
    assume "\<not> list_all (accepted (int_max_str_digits e)) (matched ls)"
    with a p show "parse_log e = Inl ValueError" by simp
  }
qed

theorem parse_log_rows_witness:
  "open_log env1 = Inr [''Step 1, t= 2.5, DT= 3, C= 4 5 6'', ''junk''] \<and>
   list_all (accepted 4300) (matched [''Step 1, t= 2.5, DT= 3, C= 4 5 6'', ''junk'']) \<and>
   parse_log env1 = Inr ([1], [2.5], [3], [4], [5], [6]) \<and>
   list_all (\<lambda>m. length m = 6) (matched [''Step 1, t= 2.5, DT= 3, C= 4 5 6'', ''junk'']) \<and>
   list_all2 (\<lambda>m x. py_int (int_max_str_digits env1) (m ! 0) = Inr x)
     (matched [''Step 1, t= 2.5, DT= 3, C= 4 5 6'', ''junk'']) [1] \<and>
   list_all2 (\<lambda>m x. py_float (m ! 1) = Inr x)
     (matched [''Step 1, t= 2.5, DT= 3, C= 4 5 6'', ''junk'']) [2.5] \<and>
   list_all2 (\<lambda>m x. py_float (m ! 5) = Inr x)
     (matched [''Step 1, t= 2.5, DT= 3, C= 4 5 6'', ''junk'']) [6]"
proof -
  have d: "int_max_str_digits env1 = 4300" by (simp add: env1_def)
  from parse_log_rows[OF open_log_env1] accepted_env1 open_log_env1 parse_log_env1
  show ?thesis unfolding d by auto
qed

text \<open>
  C4, as the code has it. The claim that \<open>parse_log\<close> never raises on a present file
  fails: the class of groups 2 to 6 also matches strings that \<open>float\<close> refuses, such as
  \<open>E\<close>, and the ValueError leaves \<open>parse_log\<close>.
\<close>

theorem parse_log_raises:
  "open_log env_bad = Inr [''Step 1, t= E, DT= 1, C= 1 1 1''] \<and>
   search pattern ''Step 1, t= E, DT= 1, C= 1 1 1'' =
     Some [''1'', ''E'', ''1'', ''1'', ''1'', ''1''] \<and>
   py_float ''E'' = Inl ValueError \<and>
   parse_log env_bad = Inl ValueError"
  by (simp add: env_bad_def parse_log_def parse_line_def pattern_def run_def py_int_def
      py_float_def is_digit_def decimal_def digit_val_def scale_def)

text \<open>
  C4, amended. On a present file \<open>parse_log\<close> (a total function: it always terminates)
  returns six lists exactly when every match is accepted: \<open>float\<close> accepts its groups 2
  to 6 and group 1 is within the interpreter's limit on digits. Otherwise it raises
  ValueError. \<open>int\<close> refuses group 1 of a match only for that limit.
\<close>

theorem parse_log_present:
  assumes "open_log e = Inr ls"
  shows "(list_all (accepted (int_max_str_digits e)) (matched ls) \<longrightarrow>
            (\<exists>r. parse_log e = Inr r)) \<and>
         (\<not> list_all (accepted (int_max_str_digits e)) (matched ls) \<longrightarrow>
            parse_log e = Inl ValueError) \<and>
         (\<forall>m \<in> set (matched ls).
            isl (py_int (int_max_str_digits e) (m ! 0)) \<longleftrightarrow>
            int_max_str_digits e \<noteq> 0 \<and> int_max_str_digits e < length (m ! 0))"
proof -
  have "isl (py_int maxd (m ! 0)) \<longleftrightarrow> maxd \<noteq> 0 \<and> maxd < length (m ! 0)"
    if "m \<in> set (matched ls)" for m maxd
  proof -
    from that obtain l where "search pattern l = Some m"
      by (auto simp: matched_def map_filter_def)
    from search_pattern_groups[OF this] have "group_of Digit (m ! 0)" by auto
    from py_int_group[OF this, of maxd] show ?thesis by simp
  qed
  moreover have "\<exists>r. parse_log e = Inr r" if "\<not> isl (parse_log e)"
    using that by (cases "parse_log e") auto
  moreover have "parse_log e = parse_lines (int_max_str_digits e) ls ([], [], [], [], [], [])"
    using assms by (simp add: parse_log_def)
  ultimately show ?thesis
    using parse_lines_accepted[of "int_max_str_digits e" ls "([], [], [], [], [], [])"]
    by metis
qed

theorem parse_log_present_witness:
  "open_log env1 = Inr [''Step 1, t= 2.5, DT= 3, C= 4 5 6'', ''junk''] \<and>
   list_all (accepted 4300) (matched [''Step 1, t= 2.5, DT= 3, C= 4 5 6'', ''junk'']) \<and>
   (\<exists>r. parse_log env1 = Inr r)"
proof -
  have d: "int_max_str_digits env1 = 4300" by (simp add: env1_def)
  from parse_log_present[OF open_log_env1] accepted_env1 open_log_env1 show ?thesis
    unfolding d by blast
qed

section \<open>update\_data and the state of the monitor\<close>

lemma parse_lines_equal_lengths:
  assumes "parse_lines maxd ls acc = Inr r" and "equal_lengths acc"
  shows "equal_lengths r"
proof -
  obtain a0 b0 c0 d0 f0 g0 where acc: "acc = (a0, b0, c0, d0, f0, g0)"
    by (rule prod_cases6)
  obtain a b c d f g where r: "r = (a, b, c, d, f, g)"
    by (rule prod_cases6)
  from parse_lines_rows[OF assms(1)[unfolded acc r]] assms(2) show ?thesis
    unfolding acc r equal_lengths_def
    by (auto dest!: list_all2_lengthD)
qed

lemma parse_log_equal_lengths: "parse_log e = Inr r \<Longrightarrow> equal_lengths r"
proof -
  assume p: "parse_log e = Inr r"
  have e0: "equal_lengths ([], [], [], [], [], [])" by (simp add: equal_lengths_def)
  show ?thesis
  proof (cases "open_log e")
    case (Inl x)
    with p e0 show ?thesis by (auto simp: parse_log_def split: if_splits)
  next
    case (Inr ls)
    with p have "parse_lines (int_max_str_digits e) ls ([], [], [], [], [], []) = Inr r"
      by (simp add: parse_log_def)
    from parse_lines_equal_lengths[OF this e0] show ?thesis .
  qed
qed

lemma columns_of_update_plots: "columns_of (update_plots s) = columns_of s"
  by (simp add: columns_of_def update_plots_def)

lemma columns_after_return:
  "parse_log e = Inr r \<Longrightarrow> columns_of (monitor_after (update_data e s)) = r"
  by (cases r)
    (simp add: update_data_def Let_def columns_of_def update_plots_def
      update_plots_stopped_def split: option.splits)

lemma columns_after_raise:
  "parse_log e = Inl x \<Longrightarrow> columns_of (monitor_after (update_data e s)) = columns_of s"
  by (simp add: update_data_def Let_def columns_of_def)

lemma raised_update_data:
  "raised (update_data e s) =
     (case parse_log e of Inl x \<Rightarrow> Some x | Inr r \<Rightarrow> map_option (fst \<circ> snd) (draw e))"
proof (cases "parse_log e")
  case (Inl x)
  then show ?thesis by (simp add: update_data_def Let_def)
next
  case (Inr r)
  obtain a b c d f g where r: "r = (a, b, c, d, f, g)" by (rule prod_cases6)
  show ?thesis
  proof (cases "draw e")
    case None
    with Inr r show ?thesis by (simp add: update_data_def Let_def)
  next
    case (Some t)
    with Inr r show ?thesis by (cases t) (simp add: update_data_def Let_def)
  qed
qed

lemma raised_parse_log: "parse_log e = Inl x \<Longrightarrow> raised (update_data e s) = Some x"
  by (simp add: raised_update_data)

lemma raised_None: "raised (update_data e s) = None \<Longrightarrow> \<exists>r. parse_log e = Inr r"
proof (cases "parse_log e")
  case (Inl x)
  assume "raised (update_data e s) = None"
  with Inl show ?thesis by (simp add: raised_update_data)
next
  case (Inr r)
  then show ?thesis by blast
qed

lemma after_tick_fields:
  "poll_interval_ms (monitor_after (update_data e s)) = poll_interval_ms s"
  "x_modes (monitor_after (update_data e s)) = x_modes s"
  "colors (monitor_after (update_data e s)) = colors s"
  "length (axes (monitor_after (update_data e s))) = length (axes s)"
  by (auto simp: update_data_def Let_def update_plots_def update_plots_stopped_def
      split: sum.splits prod.splits option.splits)

lemma label_texts_after_tick_cases:
  "label_texts (monitor_after (update_data e s)) = label_texts s \<or>
   (\<exists>k \<le> length (axes s). label_texts (monitor_after (update_data e s)) = map XLabel [0..<k])"
proof (cases "parse_log e")
  case (Inl x)
  then show ?thesis by (simp add: update_data_def Let_def)
next
  case (Inr r)
  show ?thesis
  proof (cases "draw e")
    case None
    with Inr have "label_texts (monitor_after (update_data e s)) =
        map XLabel [0..<length (axes s)]"
      by (cases r) (simp add: update_data_def Let_def update_plots_def)
    then show ?thesis by auto
  next
    case (Some t)
    obtain k x ch where t: "t = (k, x, ch)" by (cases t) auto
    with Some Inr have "label_texts (monitor_after (update_data e s)) =
        map XLabel [0..<min k (length (axes s))]"
      by (cases r) (simp add: update_data_def Let_def update_plots_stopped_def)
    moreover have "min k (length (axes s)) \<le> length (axes s)" by simp
    ultimately show ?thesis by blast
  qed
qed

lemma ok_init: "monitor_ok (init e)"
  by (simp add: monitor_ok_def init_def init_ui_def columns_of_def equal_lengths_def list_all_iff)

lemma ok_update_plots: "monitor_ok s \<Longrightarrow> monitor_ok (update_plots s)"
  by (simp add: monitor_ok_def update_plots_def columns_of_def)

lemma ok_update_data: "monitor_ok s \<Longrightarrow> monitor_ok (monitor_after (update_data e s))"
proof -
  assume w: "monitor_ok s"
  have "equal_lengths (columns_of (monitor_after (update_data e s)))"
  proof (cases "parse_log e")
    case (Inl x)
    with w show ?thesis by (simp add: columns_after_raise monitor_ok_def)
  next
    case (Inr r)
    from parse_log_equal_lengths[OF Inr] columns_after_return[OF Inr, of s]
    show ?thesis by simp
  qed
  moreover from w label_texts_after_tick_cases[of e s]
  have "length (label_texts (monitor_after (update_data e s))) \<le> 5 \<and>
        label_texts (monitor_after (update_data e s)) =
          map XLabel [0..<length (label_texts (monitor_after (update_data e s)))]"
    by (auto simp: monitor_ok_def)
  ultimately show ?thesis using w by (simp add: monitor_ok_def after_tick_fields)
qed

lemma ok_on_label_click: "monitor_ok s \<Longrightarrow> monitor_ok (on_label_click a s)"
proof -
  assume w: "monitor_ok s"
  have "list_all (\<lambda>m. m = ''step'' \<or> m = ''time'') (xs[i := v])"
    if "list_all (\<lambda>m. m = ''step'' \<or> m = ''time'') xs" "v = ''step'' \<or> v = ''time''"
    for xs :: "string list" and i v
    using that by (auto simp: list_all_iff dest!: set_update_subset_insert[THEN subsetD])
  with w show ?thesis
    by (simp add: on_label_click_def Let_def monitor_ok_def update_plots_def columns_of_def)
qed

lemma reachable_ok: "reachable s \<Longrightarrow> monitor_ok s"
  by (induction rule: reachable.induct) (simp_all add: ok_init ok_update_data ok_on_label_click)

text \<open>
  C2. The six lists that \<open>parse_log\<close> returns have the same length, whatever the
  environment answers (an absent file included); so have the six lists of the monitor
  after every call of \<open>update_data\<close> that returns, and in every reachable state, also
  after a call that an exception left.
\<close>

theorem lists_same_length:
  "(\<forall>r. parse_log e = Inr r \<longrightarrow> equal_lengths r) \<and>
   (raised (update_data e s) = None \<longrightarrow>
      equal_lengths (columns_of (monitor_after (update_data e s)))) \<and>
   (reachable s \<longrightarrow> equal_lengths (columns_of s) \<and>
      equal_lengths (columns_of (monitor_after (update_data e s))))"
proof (intro conjI allI impI)
  fix r assume "parse_log e = Inr r"
  then show "equal_lengths r" by (rule parse_log_equal_lengths)
next
  assume "raised (update_data e s) = None"
  then obtain r where r: "parse_log e = Inr r"
    by (auto dest: raised_None)
  from parse_log_equal_lengths[OF r] columns_after_return[OF r, of s]
  show "equal_lengths (columns_of (monitor_after (update_data e s)))" by simp
next
  assume "reachable s"
  then show "equal_lengths (columns_of s)" by (auto dest: reachable_ok simp: monitor_ok_def)
next
  assume "reachable s"
  then have "monitor_ok (monitor_after (update_data e s))" by (auto dest: reachable_ok ok_update_data)
  then show "equal_lengths (columns_of (monitor_after (update_data e s)))"
    by (simp add: monitor_ok_def)
qed

theorem lists_same_length_witness:
  "parse_log env1 = Inr ([1], [2.5], [3], [4], [5], [6]) \<and>
   equal_lengths ([1], [2.5], [3], [4], [5], [6]) \<and>
   raised (update_data env1 (init env1)) = None \<and>
   reachable (init env1) \<and>
   equal_lengths (columns_of (monitor_after (update_data env1 (init env1))))"
proof -
  have r: "raised (update_data env1 (init env1)) = None"
    by (simp add: raised_update_data parse_log_env1 draw_samples)
  from lists_same_length[of env1 "init env1"] parse_log_env1 r reach_init[of env1]
  show ?thesis by blast
qed

lemma parse_lines_append:
  "parse_lines maxd (xs @ ys) acc =
     (case parse_lines maxd xs acc of Inl x \<Rightarrow> Inl x | Inr acc' \<Rightarrow> parse_lines maxd ys acc')"
  by (induction xs arbitrary: acc) (simp_all split: sum.splits)

lemma parse_lines_prefix:
  assumes "parse_lines maxd ls acc = Inr r"
  shows "prefix_columns acc r"
proof -
  obtain a0 b0 c0 d0 f0 g0 where acc: "acc = (a0, b0, c0, d0, f0, g0)"
    by (rule prod_cases6)
  obtain a b c d f g where r: "r = (a, b, c, d, f, g)"
    by (rule prod_cases6)
  from parse_lines_rows[OF assms[unfolded acc r]] show ?thesis
    unfolding acc r prefix_columns_def by auto
qed

lemma parse_log_env_empty: "parse_log env_empty = Inr ([], [], [], [], [], [])"
  by (simp add: env_empty_def parse_log_def)

lemma parse_log_env_perm: "parse_log env_perm = Inr ([], [], [], [], [], [])"
  by (simp add: env_perm_def parse_log_def)

lemma parse_log_env_absent: "parse_log env_absent = Inr ([], [], [], [], [], [])"
  by (simp add: env_absent_def parse_log_def)

lemma parse_log_env_grown:
  "parse_log env_grown = Inr ([1, 2], [2.5, 3], [3, 3], [4, 4], [5, 5], [6, 6])"
  by (simp add: env_grown_def parse_log_def parse_line_def pattern_def run_def py_int_def
      py_float_def is_digit_def decimal_def digit_val_def scale_def)

lemma steps_columns_of: "steps s = fst (columns_of s)"
  by (simp add: columns_of_def)

text \<open>
  C3, as the code has it. An absent log file is not the only error the program handles:
  \<open>__init__\<close> and \<open>update_data\<close> catch every OSError of \<open>os.path.getmtime\<close>, for
  instance a PermissionError, and go on with the modification time 0.
\<close>

theorem getmtime_error_handled:
  "getmtime env_perm = Inl PermissionError \<and>
   last_file_mod (init env_perm) = 0 \<and>
   raised (update_data env_perm (init env_perm)) = None"
  by (simp add: raised_update_data parse_log_env_perm draw_samples)
    (simp add: env_perm_def init_def init_ui_def)

text \<open>
  C3, amended. When opening the log raises FileNotFoundError, \<open>parse_log\<close> returns six
  empty lists; every other exception of opening or reading leaves \<open>parse_log\<close>. Besides,
  any OSError of \<open>getmtime\<close> is handled in \<open>__init__\<close> and in \<open>update_data\<close> as the
  modification time 0. Nothing else is handled: \<open>update_data\<close> raises whatever
  \<open>parse_log\<close> raises.
\<close>

theorem absent_file_handling:
  "(open_log e = Inl (OSError FileNotFoundError) \<longrightarrow>
      parse_log e = Inr ([], [], [], [], [], [])) \<and>
   (\<forall>x. open_log e = Inl x \<and> x \<noteq> OSError FileNotFoundError \<longrightarrow> parse_log e = Inl x) \<and>
   (\<forall>y. getmtime e = Inl y \<longrightarrow>
      last_file_mod (init e) = 0 \<and> update_data e s = update_data (e\<lparr>getmtime := Inr 0\<rparr>) s) \<and>
   (\<forall>x. parse_log e = Inl x \<longrightarrow> raised (update_data e s) = Some x)"
proof (intro conjI allI impI)
  assume "open_log e = Inl (OSError FileNotFoundError)"
  then show "parse_log e = Inr ([], [], [], [], [], [])" by (simp add: parse_log_def)
next
  fix x assume "open_log e = Inl x \<and> x \<noteq> OSError FileNotFoundError"
  then show "parse_log e = Inl x" by (simp add: parse_log_def)
next
  fix y assume "getmtime e = Inl y"
  then show "last_file_mod (init e) = 0" by (simp add: init_def init_ui_def)
next
  fix y assume "getmtime e = Inl y"
  moreover have p: "parse_log (e\<lparr>getmtime := Inr 0\<rparr>) = parse_log e"
    by (simp add: parse_log_def cong: sum.case_cong)
  ultimately show "update_data e s = update_data (e\<lparr>getmtime := Inr 0\<rparr>) s"
  proof (cases "parse_log e")
    case (Inl x)
    with \<open>getmtime e = Inl y\<close> p show ?thesis by (simp add: update_data_def)
  next
    case (Inr r)
    obtain a b c d f g where r: "r = (a, b, c, d, f, g)" by (rule prod_cases6)
    from \<open>getmtime e = Inl y\<close> p Inr r show ?thesis
      by (cases "draw e") (simp_all add: update_data_def)
  qed
next
  fix x assume "parse_log e = Inl x"
  then show "raised (update_data e s) = Some x" by (rule raised_parse_log)
qed

theorem absent_file_handling_witness:
  "open_log env_absent = Inl (OSError FileNotFoundError) \<and>
   parse_log env_absent = Inr ([], [], [], [], [], []) \<and>
   getmtime env_absent = Inl FileNotFoundError \<and>
   last_file_mod (init env_absent) = 0 \<and>
   update_data env_absent (init env_absent) =
     update_data (env_absent\<lparr>getmtime := Inr 0\<rparr>) (init env_absent) \<and>
   parse_log env_bad = Inl ValueError \<and>
   raised (update_data env_bad (init env_bad)) = Some ValueError"
proof -
  have h: "open_log env_absent = Inl (OSError FileNotFoundError)"
    "getmtime env_absent = Inl FileNotFoundError"
    by (simp_all add: env_absent_def)
  from absent_file_handling[of env_absent "init env_absent"]
    absent_file_handling[of env_bad "init env_bad"] h parse_log_env_bad
  show ?thesis by blast
qed

text \<open>
  C6, as the code has it. On a file on which \<open>parse_log\<close> raises, the assignment of the
  six lists is not reached and they stay as they were: two runs on the same file
  contents from different prior lists leave different lists.
\<close>

theorem raising_tick_keeps_lists:
  "parse_log env_bad = Inl ValueError \<and>
   columns_of (monitor_after (update_data env_bad (init env1))) = ([], [], [], [], [], []) \<and>
   columns_of (monitor_after (update_data env_bad state1)) = ([1], [2.5], [3], [4], [5], [6]) \<and>
   columns_of (monitor_after (update_data env_bad (init env1))) \<noteq>
     columns_of (monitor_after (update_data env_bad state1))"
proof -
  have "columns_of (init env1) = ([], [], [], [], [], [])"
    by (simp add: columns_of_def init_def init_ui_def)
  moreover have "columns_of state1 = ([1], [2.5], [3], [4], [5], [6])"
    unfolding state1_def by (rule columns_after_return[OF parse_log_env1])
  ultimately show ?thesis
    by (simp add: parse_log_env_bad columns_after_raise[OF parse_log_env_bad])
qed

text \<open>
  C6, amended. A tick on which \<open>parse_log\<close> returns rebuilds the lists: the six lists of
  the monitor after \<open>update_data\<close> are the result \<open>r\<close> of \<open>parse_log\<close> on the current
  file, whatever they were before, so that two runs on the same file contents (and the
  same interpreter limit), from any two prior states, leave the same lists. A tick on
  which \<open>parse_log\<close> raises leaves the six lists as they were before it.
\<close>

theorem update_data_rebuilds:
  assumes "open_log e2 = open_log e1"
    and "int_max_str_digits e2 = int_max_str_digits e1"
  shows "(\<forall>r. parse_log e1 = Inr r \<longrightarrow>
            columns_of (monitor_after (update_data e1 s1)) = r \<and>
            columns_of (monitor_after (update_data e2 s2)) = r) \<and>
         (\<forall>x. parse_log e1 = Inl x \<longrightarrow>
            columns_of (monitor_after (update_data e1 s1)) = columns_of s1 \<and>
            columns_of (monitor_after (update_data e2 s2)) = columns_of s2)"
proof -
  from assms have "parse_log e2 = parse_log e1"
    by (simp add: parse_log_def cong: sum.case_cong)
  then show ?thesis by (simp add: columns_after_return columns_after_raise)
qed

theorem update_data_rebuilds_witness:
  "parse_log env1 = Inr ([1], [2.5], [3], [4], [5], [6]) \<and>
   columns_of (init env1) = ([], [], [], [], [], []) \<and>
   columns_of (monitor_after (update_data env_grown (init env1))) =
     ([1, 2], [2.5, 3], [3, 3], [4, 4], [5, 5], [6, 6]) \<and>
   columns_of (monitor_after (update_data env1 (init env1))) = ([1], [2.5], [3], [4], [5], [6]) \<and>
   columns_of (monitor_after (update_data env1 (monitor_after (update_data env_grown (init env1))))) =
     ([1], [2.5], [3], [4], [5], [6])"
proof -
  have "columns_of (init env1) = ([], [], [], [], [], [])"
    by (simp add: columns_of_def init_def init_ui_def)
  moreover note columns_after_return[OF parse_log_env_grown, of "init env1"]
  moreover note update_data_rebuilds[OF refl refl, of env1 "init env1"
      "monitor_after (update_data env_grown (init env1))"]
  ultimately show ?thesis using parse_log_env1 by blast
qed

text \<open>
  C5, as the code has it. \<open>update_data\<close> does not append: after a tick on a log that
  has become empty the lists are empty, and the former contents are no prefix of them.
\<close>

theorem update_data_not_append:
  "steps (monitor_after (update_data env1 (init env1))) = [1] \<and>
   steps (monitor_after (update_data env_empty (monitor_after (update_data env1 (init env1))))) = [] \<and>
   \<not> prefix (steps (monitor_after (update_data env1 (init env1))))
       (steps (monitor_after (update_data env_empty (monitor_after (update_data env1 (init env1))))))"
  by (simp add: steps_columns_of columns_after_return[OF parse_log_env1]
      columns_after_return[OF parse_log_env_empty])

text \<open>
  C5, amended. A tick on which \<open>parse_log\<close> returns replaces the six lists by the newly
  parsed results. The contents held before the tick are a prefix of the contents after
  it when they are the parse of a log whose lines are a prefix of the lines of the
  current log, that is when the log has only grown by whole lines since.
\<close>

theorem update_data_replaces:
  assumes "parse_log e = Inr r"
  shows "columns_of (monitor_after (update_data e s)) = r \<and>
         (\<forall>ls0 ls'. open_log e = Inr (ls0 @ ls') \<and>
            parse_lines (int_max_str_digits e) ls0 ([], [], [], [], [], []) = Inr (columns_of s)
            \<longrightarrow> prefix_columns (columns_of s) (columns_of (monitor_after (update_data e s))))"
proof (intro conjI allI impI)
  show c: "columns_of (monitor_after (update_data e s)) = r"
    using assms by (rule columns_after_return)
  fix ls0 ls'
  assume a: "open_log e = Inr (ls0 @ ls') \<and>
    parse_lines (int_max_str_digits e) ls0 ([], [], [], [], [], []) = Inr (columns_of s)"
  with assms have "parse_lines (int_max_str_digits e) (ls0 @ ls') ([], [], [], [], [], []) = Inr r"
    by (simp add: parse_log_def)
  with a have "parse_lines (int_max_str_digits e) ls' (columns_of s) = Inr r"
    by (simp add: parse_lines_append)
  from parse_lines_prefix[OF this] c
  show "prefix_columns (columns_of s) (columns_of (monitor_after (update_data e s)))" by simp
qed

theorem update_data_replaces_witness:
  "parse_log env_grown = Inr ([1, 2], [2.5, 3], [3, 3], [4, 4], [5, 5], [6, 6]) \<and>
   open_log env_grown = Inr ([''Step 1, t= 2.5, DT= 3, C= 4 5 6'', ''junk''] @
                             [''Step 2, t= 3, DT= 3, C= 4 5 6'']) \<and>
   parse_lines (int_max_str_digits env_grown) [''Step 1, t= 2.5, DT= 3, C= 4 5 6'', ''junk'']
     ([], [], [], [], [], []) = Inr (columns_of (monitor_after (update_data env1 (init env1)))) \<and>
   prefix_columns (columns_of (monitor_after (update_data env1 (init env1))))
     (columns_of (monitor_after (update_data env_grown (monitor_after (update_data env1 (init env1))))))"
proof -
  have o: "open_log env_grown = Inr ([''Step 1, t= 2.5, DT= 3, C= 4 5 6'', ''junk''] @
                             [''Step 2, t= 3, DT= 3, C= 4 5 6''])"
    by (simp add: env_grown_def)
  have "int_max_str_digits env_grown = int_max_str_digits env1"
    by (simp add: env_grown_def env1_def)
  with parse_log_env1 have p: "parse_lines (int_max_str_digits env_grown)
      [''Step 1, t= 2.5, DT= 3, C= 4 5 6'', ''junk''] ([], [], [], [], [], []) =
      Inr (columns_of (monitor_after (update_data env1 (init env1))))"
    by (simp add: parse_log_def open_log_env1 columns_after_return[OF parse_log_env1])
  from update_data_replaces[OF parse_log_env_grown,
      of "monitor_after (update_data env1 (init env1))"] o p parse_log_env_grown
  show ?thesis by blast
qed

section \<open>The x-axis toggle\<close>

lemma index_of_nth: "distinct xs \<Longrightarrow> i < length xs \<Longrightarrow> index_of xs (xs ! i) = i"
proof (induction xs arbitrary: i)
  case Nil
  then show ?case by simp
next
  case (Cons x xs)
  then show ?case by (cases i) auto
qed

lemma index_of_XLabel: "i < n \<Longrightarrow> index_of (map XLabel [0..<n]) (XLabel i) = i"
proof -
  assume i: "i < n"
  have "distinct (map XLabel [0..<n])" by (simp add: distinct_map inj_on_def)
  from index_of_nth[OF this, of i] i show ?thesis by simp
qed

lemma ok_label:
  assumes "monitor_ok s" and "XLabel i \<in> set (label_texts s)"
  shows "index_of (label_texts s) (XLabel i) = i" and "i < 5"
proof -
  define n where "n = length (label_texts s)"
  from assms(1) have n: "n \<le> 5" "label_texts s = map XLabel [0..<n]"
    by (simp_all add: monitor_ok_def n_def)
  from assms(2) n(2) have i: "i < n" by auto
  with n(1) show "i < 5" by simp
  from i show "index_of (label_texts s) (XLabel i) = i"
    unfolding n(2) by (rule index_of_XLabel)
qed

lemma ok_mode:
  assumes "monitor_ok s" and "i < 5"
  shows "x_modes s ! i = ''step'' \<or> x_modes s ! i = ''time''"
  using assms by (auto simp: monitor_ok_def list_all_length)

lemma click_XLabel:
  assumes "monitor_ok s" and "XLabel i \<in> set (label_texts s)"
  shows "x_modes (on_label_click (XLabel i) s) =
           (x_modes s)[i := (if x_modes s ! i = ''step'' then ''time'' else ''step'')]"
    and "label_texts (on_label_click (XLabel i) s) = map XLabel [0..<5]"
proof -
  note idx = ok_label(1)[OF assms]
  from assms(1) have a: "length (axes s) = 5" by (simp add: monitor_ok_def)
  show "x_modes (on_label_click (XLabel i) s) =
           (x_modes s)[i := (if x_modes s ! i = ''step'' then ''time'' else ''step'')]"
    using assms(2) idx by (simp add: on_label_click_def update_plots_def)
  show "label_texts (on_label_click (XLabel i) s) = map XLabel [0..<5]"
    using assms(2) idx a by (simp add: on_label_click_def update_plots_def)
qed

lemma x_modes_after_tick: "x_modes (monitor_after (update_data e s)) = x_modes s"
  by (rule after_tick_fields)

lemma label_texts_after_tick:
  "parse_log e = Inr r \<Longrightarrow> draw e = None \<Longrightarrow>
   label_texts (monitor_after (update_data e s)) = map XLabel [0..<length (axes s)]"
  by (cases r) (simp add: update_data_def Let_def update_plots_def)

lemma reachable_state1: "reachable state1"
  unfolding state1_def by (rule reach_tick[OF reach_init])

lemma label_texts_state1: "label_texts state1 = map XLabel [0..<5]"
  unfolding state1_def label_texts_after_tick[OF parse_log_env1 draw_samples(1)]
  by (simp add: init_def init_ui_def)

lemma x_modes_state1: "x_modes state1 = replicate 5 ''step''"
  unfolding state1_def x_modes_after_tick by (simp add: init_def init_ui_def)



section \<open>The two LEDs\<close>

text \<open>
  C8. On every tick the Jam LED is flashed, once and red, exactly when the time elapsed
  since \<open>last_update_time\<close> exceeds 1.1 times the poll interval, which is 1.1 seconds in
  every reachable state; \<open>last_update_time\<close> becomes the current time on every tick,
  also when \<open>parse_log\<close> raises afterwards. Times are real numbers here: the rounding of
  the float subtraction and of the constant 1.1 is not modelled.
\<close>

theorem jam_led:
  "[f \<leftarrow> flashed (update_data e s). fst f = Delay_led] =
     (if now e - last_update_time s > (real_of_int (poll_interval_ms s) / 1000) * 1.1
      then [(Delay_led, ''red'')] else []) \<and>
   last_update_time (monitor_after (update_data e s)) = now e \<and>
   (reachable s \<longrightarrow>
      ((Delay_led, ''red'') \<in> set (flashed (update_data e s)) \<longleftrightarrow>
       now e - last_update_time s > 1.1))"
proof -
  have "poll_interval_ms s = 1000" if "reachable s"
    using reachable_ok[OF that] by (simp add: monitor_ok_def)
  then show ?thesis
    by (cases "parse_log e")
      (auto simp: update_data_def Let_def flash_led_def update_plots_def
        update_plots_stopped_def split: prod.splits option.splits)
qed

theorem jam_led_witness:
  "reachable (init env1) \<and> now env_empty - last_update_time (init env1) > 1.1 \<and>
   (Delay_led, ''red'') \<in> set (flashed (update_data env_empty (init env1)))"
proof -
  have e: "now env_empty - last_update_time (init env1) > 1.1"
    by (simp add: env_empty_def env1_def init_def init_ui_def)
  from jam_led[of env_empty "init env1"] reach_init[of env1] e show ?thesis by blast
qed

text \<open>
  C9, as the code has it. A missing file can trigger the flash: it counts as the
  modification time 0, which is greater than the stored time of a file dated before
  the epoch.
\<close>

theorem missing_file_flashes:
  "last_file_mod (init env_old) = - 1 \<and> getmtime env_absent = Inl FileNotFoundError \<and>
   (Update_led, ''green'') \<in> set (flashed (update_data env_absent (init env_old))) \<and>
   last_file_mod (monitor_after (update_data env_absent (init env_old))) = 0"
  by (simp add: update_data_def Let_def parse_log_env_absent flash_led_def draw_samples)
    (simp add: env_old_def env_absent_def init_def init_ui_def update_plots_def)

text \<open>
  C9, amended. On every tick the Update LED is flashed, once and green, exactly when the
  modification time (0 when \<open>getmtime\<close> raises an OSError) is greater than
  \<open>last_file_mod\<close>, and \<open>last_file_mod\<close> is overwritten with it exactly then; so
  \<open>last_file_mod\<close> never decreases, and a missing file does not trigger the flash when
  \<open>last_file_mod\<close> is not negative.
\<close>

theorem update_led:
  "[f \<leftarrow> flashed (update_data e s). fst f = Update_led] =
     (if (case getmtime e of Inl x \<Rightarrow> 0 | Inr m \<Rightarrow> m) > last_file_mod s
      then [(Update_led, ''green'')] else []) \<and>
   last_file_mod (monitor_after (update_data e s)) =
     (if (case getmtime e of Inl x \<Rightarrow> 0 | Inr m \<Rightarrow> m) > last_file_mod s
      then (case getmtime e of Inl x \<Rightarrow> 0 | Inr m \<Rightarrow> m) else last_file_mod s) \<and>
   last_file_mod s \<le> last_file_mod (monitor_after (update_data e s)) \<and>
   (\<forall>x. getmtime e = Inl x \<and> 0 \<le> last_file_mod s \<longrightarrow>
      (Update_led, ''green'') \<notin> set (flashed (update_data e s)) \<and>
      last_file_mod (monitor_after (update_data e s)) = last_file_mod s)"
  by (cases "parse_log e")
    (auto simp: update_data_def Let_def flash_led_def update_plots_def
        update_plots_stopped_def split: prod.splits option.splits)

theorem update_led_witness:
  "getmtime env_absent = Inl FileNotFoundError \<and> 0 \<le> last_file_mod (init env1) \<and>
   (Update_led, ''green'') \<notin> set (flashed (update_data env_absent (init env1))) \<and>
   last_file_mod (monitor_after (update_data env_absent (init env1))) = last_file_mod (init env1)"
proof -
  have h: "getmtime env_absent = Inl FileNotFoundError" "0 \<le> last_file_mod (init env1)"
    by (simp_all add: env_absent_def env1_def init_def init_ui_def)
  from update_led[of env_absent "init env1"] h show ?thesis by blast
qed

section \<open>update\_plots\<close>

lemma axes_update_plots:
  "i < length (axes s) \<Longrightarrow> axes (update_plots s) ! i = plot_axis s i"
  by (simp add: update_plots_def)

lemma columns_of_click: "columns_of (on_label_click a s) = columns_of s"
  by (simp add: on_label_click_def Let_def columns_of_def update_plots_def)

lemma colors_click: "colors (on_label_click a s) = colors s"
  by (simp add: on_label_click_def Let_def update_plots_def)

lemma colors_after_tick: "colors (monitor_after (update_data e s)) = colors s"
  by (rule after_tick_fields)

lemma reachable_state2: "reachable state2"
  unfolding state2_def by (rule reach_click[OF reachable_state1])

lemma x_modes_state2: "x_modes state2 = [''time'', ''step'', ''step'', ''step'', ''step'']"
proof -
  have "XLabel 0 \<in> set (label_texts state1)" by (simp add: label_texts_state1)
  from click_XLabel(1)[OF reachable_ok[OF reachable_state1] this] show ?thesis
    unfolding state2_def by (simp add: x_modes_state1 numeral_eq_Suc)
qed

lemma columns_state2: "columns_of state2 = ([1], [2.5], [3], [4], [5], [6])"
  unfolding state2_def columns_of_click state1_def
  by (rule columns_after_return[OF parse_log_env1])

lemma colors_state2:
  "colors state2 = [''#FF6F61'', ''#6B5B95'', ''#88B04B'', ''#F7CAC9'', ''#92A8D1'']"
  unfolding state2_def colors_click state1_def colors_after_tick
  by (simp add: init_def init_ui_def)

text \<open>
  C10. In every reachable state \<open>update_plots\<close> draws five charts. Chart 0 swaps both
  axes with its mode: steps against times with the labels \<open>Step\<close> and \<open>Solution Time\<close>
  in mode \<open>step\<close>, times against steps with the labels swapped in mode \<open>time\<close>. Charts
  1 to 4 change only their x data and x label with the mode; their y data are always
  \<open>dts\<close>, \<open>cfls\<close>, \<open>total_times\<close> and \<open>step_times\<close>, with a fixed y label.
\<close>

theorem update_plots_axes:
  assumes "reachable s"
  shows "length (axes (update_plots s)) = 5 \<and>
    (x_modes s ! 0 = ''step'' \<or> x_modes s ! 0 = ''time'') \<and>
    (x_modes s ! 0 = ''step'' \<longrightarrow>
       plotted (axes (update_plots s) ! 0) =
         [(Ints (steps s), Floats (times' s), colors s ! 0)] \<and>
       xlabel (axes (update_plots s) ! 0) = ''Step'' \<and>
       ylabel (axes (update_plots s) ! 0) = ''Solution Time'') \<and>
    (x_modes s ! 0 = ''time'' \<longrightarrow>
       plotted (axes (update_plots s) ! 0) =
         [(Floats (times' s), Ints (steps s), colors s ! 0)] \<and>
       xlabel (axes (update_plots s) ! 0) = ''Solution Time'' \<and>
       ylabel (axes (update_plots s) ! 0) = ''Step'') \<and>
    (\<forall>i \<in> {1..4}.
       plotted (axes (update_plots s) ! i) =
         [(if x_modes s ! i = ''step'' then Ints (steps s) else Floats (times' s),
           Floats ([dts s, cfls s, total_times s, step_times s] ! (i - 1)),
           colors s ! i)] \<and>
       xlabel (axes (update_plots s) ! i) =
         (if x_modes s ! i = ''step'' then ''Step'' else ''Solution Time'') \<and>
       ylabel (axes (update_plots s) ! i) =
         [''DT'', ''CFL'', ''Total Wall Time'', ''Step Wall Time''] ! (i - 1))"
proof -
  from assms have ok: "monitor_ok s" by (rule reachable_ok)
  then have a: "length (axes s) = 5" by (simp add: monitor_ok_def)
  have len: "length (axes (update_plots s)) = 5"
    using a by (simp add: update_plots_def)
  have m0: "x_modes s ! 0 = ''step'' \<or> x_modes s ! 0 = ''time''"
    using ok_mode[OF ok, of 0] by simp
  have c0: "axes (update_plots s) ! 0 = plot_axis s 0"
    using a by (simp add: axes_update_plots)
  have rest: "plotted (axes (update_plots s) ! i) =
         [(if x_modes s ! i = ''step'' then Ints (steps s) else Floats (times' s),
           Floats ([dts s, cfls s, total_times s, step_times s] ! (i - 1)),
           colors s ! i)] \<and>
       xlabel (axes (update_plots s) ! i) =
         (if x_modes s ! i = ''step'' then ''Step'' else ''Solution Time'') \<and>
       ylabel (axes (update_plots s) ! i) =
         [''DT'', ''CFL'', ''Total Wall Time'', ''Step Wall Time''] ! (i - 1)"
    if "i \<in> {1..4}" for i
  proof -
    from that have "i = 1 \<or> i = 2 \<or> i = 3 \<or> i = 4" by auto
    moreover from that a have "axes (update_plots s) ! i = plot_axis s i"
      by (simp add: axes_update_plots)
    ultimately show ?thesis
      by (auto simp: plot_axis_def Let_def data_sets_def ylabels_def)
  qed
  from len m0 rest show ?thesis
    unfolding c0 by (simp add: plot_axis_def Let_def)
qed

theorem update_plots_axes_witness:
  "reachable state2 \<and> x_modes state2 ! 0 = ''time'' \<and> 1 \<in> {1..4::nat} \<and>
   plotted (axes (update_plots state2) ! 0) = [(Floats [2.5], Ints [1], ''#FF6F61'')] \<and>
   xlabel (axes (update_plots state2) ! 0) = ''Solution Time'' \<and>
   ylabel (axes (update_plots state2) ! 0) = ''Step'' \<and>
   plotted (axes (update_plots state2) ! 1) = [(Ints [1], Floats [3], ''#6B5B95'')] \<and>
   ylabel (axes (update_plots state2) ! 1) = ''DT''"
proof -
  have m: "x_modes state2 ! 0 = ''time''" "x_modes state2 ! 1 = ''step''"
    by (simp_all add: x_modes_state2)
  have i: "1 \<in> {1..4::nat}" by simp
  from columns_state2 have c: "steps state2 = [1]" "times' state2 = [2.5]" "dts state2 = [3]"
    by (simp_all add: columns_of_def)
  note t = update_plots_axes[OF reachable_state2]
  from t m(1) have "plotted (axes (update_plots state2) ! 0) =
         [(Floats (times' state2), Ints (steps state2), colors state2 ! 0)] \<and>
       xlabel (axes (update_plots state2) ! 0) = ''Solution Time'' \<and>
       ylabel (axes (update_plots state2) ! 0) = ''Step''" by blast
  moreover from t i have "plotted (axes (update_plots state2) ! 1) =
         [(if x_modes state2 ! 1 = ''step'' then Ints (steps state2) else Floats (times' state2),
           Floats ([dts state2, cfls state2, total_times state2, step_times state2] ! (1 - 1)),
           colors state2 ! 1)] \<and>
       ylabel (axes (update_plots state2) ! 1) =
         [''DT'', ''CFL'', ''Total Wall Time'', ''Step Wall Time''] ! (1 - 1)" by blast
  ultimately show ?thesis using reachable_state2 m i c
    by (simp add: colors_state2)
qed


end
